theory Spec2Isabelle
  imports Main "HOL-Library.Word"
begin

section \<open>Shared types\<close>

text \<open>
  \<open>size_t\<close> of the 64-bit targets the tool is built for. Indices, the not-found result
  \<open>static_cast<size_t>(-1)\<close> and hash values all have this type.
\<close>

type_synonym size_t = "64 word"

text \<open>
  Ways in which a call can end without returning a value: reading through a null pointer
  or past the end of a \<open>std::vector\<close> (undefined behaviour in C++), and a failed
  \<open>CHECK\<close>, which aborts the process.
\<close>

datatype failure = Undefined_behaviour | CHECK_failed

section \<open>tools/gn/unique_vector.h\<close>

subsection \<open>\<open>internal::UniquifyRef<T>\<close>\<close>

text \<open>
  The four data members of the class; a member \<open>x_\<close> of the source is the field \<open>x_m\<close>
  here. \<open>value_m\<close> is a pointer to a \<open>T\<close>: \<open>None\<close> is
  \<open>nullptr\<close>, \<open>Some v\<close> a pointer to an object whose current content is \<open>v\<close>.
  \<open>vect_m\<close> is a pointer to a vector; the only vector a reference of a \<open>UniqueVector\<close>
  ever points to is the owner's \<open>vector_m\<close>, so the model records whether the pointer is
  set (\<open>True\<close>) or \<open>nullptr\<close> (\<open>False\<close>) and every read through it takes the owner's
  current vector as an argument. That is what makes a committed reference survive a
  reallocation: it is dereferenced by index at the time of the comparison.
\<close>

record 'a UniquifyRef =
  value_m :: "'a option"
  vect_m :: bool
  index_m :: size_t
  hash_val_m :: size_t

text \<open>\<open>const T& value() const { return value_ ? *value_ : (*vect_)[index_]; }\<close>\<close>

definition ref_value :: "'a list \<Rightarrow> 'a UniquifyRef \<Rightarrow> failure + 'a" where
  "ref_value vec r =
     (case value_m r of
        Some v \<Rightarrow> Inr v
      | None \<Rightarrow>
          if vect_m r \<and> unat (index_m r) < length vec
          then Inr (vec ! unat (index_m r))
          else Inl Undefined_behaviour)"

text \<open>
  \<open>explicit UniquifyRef(const T* v)\<close>: the other members keep their default member
  initialisers and \<open>FillHashValue\<close> stores \<open>std::hash<T>\<close> of \<open>value()\<close>, which is \<open>*v\<close>.
  The hash function of \<open>T\<close> is the parameter \<open>h\<close>.
\<close>

definition UniquifyRef_of_value :: "('a \<Rightarrow> size_t) \<Rightarrow> 'a \<Rightarrow> 'a UniquifyRef" where
  "UniquifyRef_of_value h t =
     \<lparr>value_m = Some t, vect_m = False, index_m = - 1, hash_val_m = h t\<rparr>"

text \<open>\<open>UniquifyRef(const std::vector<T>* v, size_t i, size_t hash_value)\<close>\<close>

definition UniquifyRef_of_index :: "size_t \<Rightarrow> size_t \<Rightarrow> 'a UniquifyRef" where
  "UniquifyRef_of_index i hash_value =
     \<lparr>value_m = None, vect_m = True, index_m = i, hash_val_m = hash_value\<rparr>"

text \<open>
  \<open>operator==\<close> on references compares the two values with the \<open>operator==\<close> of \<open>T\<close>,
  the parameter \<open>eq\<close>.
\<close>

definition ref_eq ::
  "('a \<Rightarrow> 'a \<Rightarrow> bool) \<Rightarrow> 'a list \<Rightarrow> 'a UniquifyRef \<Rightarrow> 'a UniquifyRef \<Rightarrow> failure + bool" where
  "ref_eq eq vec a b =
     (case ref_value vec a of
        Inl e \<Rightarrow> Inl e
      | Inr x \<Rightarrow> (case ref_value vec b of Inl e \<Rightarrow> Inl e | Inr y \<Rightarrow> Inr (eq x y)))"

subsection \<open>The \<open>std::unordered_set<Ref>\<close> member\<close>

text \<open>
  The set is kept as the list of its elements in the order of their insertion; nothing in
  the class iterates over it. \<open>std::hash<UniquifyRef<T>>\<close> returns the cached
  \<open>hash_val()\<close>, and a lookup compares an element with the key only when the two hash
  values agree, then with \<open>operator==\<close>. \<open>set_find\<close> returns the element found, or
  \<open>None\<close> for \<open>end()\<close>.
\<close>

fun set_find ::
  "('a \<Rightarrow> 'a \<Rightarrow> bool) \<Rightarrow> 'a list \<Rightarrow> 'a UniquifyRef list \<Rightarrow> 'a UniquifyRef
     \<Rightarrow> failure + 'a UniquifyRef option" where
  "set_find eq vec [] k = Inr None"
| "set_find eq vec (r # rs) k =
     (if hash_val_m r = hash_val_m k
      then (case ref_eq eq vec k r of
              Inl e \<Rightarrow> Inl e
            | Inr found \<Rightarrow> if found then Inr (Some r) else set_find eq vec rs k)
      else set_find eq vec rs k)"

text \<open>\<open>insert\<close> of a set with unique keys: an element equal to the new one blocks it.\<close>

definition set_insert ::
  "('a \<Rightarrow> 'a \<Rightarrow> bool) \<Rightarrow> 'a list \<Rightarrow> 'a UniquifyRef list \<Rightarrow> 'a UniquifyRef
     \<Rightarrow> failure + 'a UniquifyRef list" where
  "set_insert eq vec rs r =
     (case set_find eq vec rs r of
        Inl e \<Rightarrow> Inl e
      | Inr (Some _) \<Rightarrow> Inr rs
      | Inr None \<Rightarrow> Inr (rs @ [r]))"

subsection \<open>\<open>UniqueVector<T>\<close>\<close>

record 'a UniqueVector =
  set_m :: "'a UniquifyRef list"
  vector_m :: "'a list"

text \<open>A default-constructed collection.\<close>

definition UniqueVector_new :: "'a UniqueVector" where
  "UniqueVector_new = \<lparr>set_m = [], vector_m = []\<rparr>"

definition size_uv :: "'a UniqueVector \<Rightarrow> size_t" where
  "size_uv s = of_nat (length (vector_m s))"

definition empty_uv :: "'a UniqueVector \<Rightarrow> bool" where
  "empty_uv s = (vector_m s = [])"

definition clear :: "'a UniqueVector \<Rightarrow> 'a UniqueVector" where
  "clear s = s\<lparr>vector_m := [], set_m := []\<rparr>"

text \<open>
  \<open>reserve\<close> changes the capacity of \<open>vector_m\<close> only. A list has no capacity, so the
  argument has no effect on the state.
\<close>

definition reserve :: "'a UniqueVector \<Rightarrow> size_t \<Rightarrow> 'a UniqueVector" where
  "reserve s n = s"

text \<open>\<open>operator[]\<close>: \<open>vector_[index]\<close>, undefined past the end.\<close>

definition subscript :: "'a UniqueVector \<Rightarrow> size_t \<Rightarrow> failure + 'a" where
  "subscript s i =
     (if unat i < length (vector_m s) then Inr (vector_m s ! unat i)
      else Inl Undefined_behaviour)"

text \<open>
  \<open>bool push_back(const T& t)\<close>. The result is the returned flag and the collection
  after the call. The new reference is built after \<open>vector_.push_back(t)\<close>, so
  \<open>vector_.size() - 1\<close> is computed from the new length, in \<open>size_t\<close>.
\<close>

definition push_back ::
  "('a \<Rightarrow> 'a \<Rightarrow> bool) \<Rightarrow> ('a \<Rightarrow> size_t) \<Rightarrow> 'a UniqueVector \<Rightarrow> 'a
     \<Rightarrow> failure + (bool \<times> 'a UniqueVector)" where
  "push_back eq h s t =
     (let ref = UniquifyRef_of_value h t in
      case set_find eq (vector_m s) (set_m s) ref of
        Inl e \<Rightarrow> Inl e
      | Inr (Some _) \<Rightarrow> Inr (False, s)
      | Inr None \<Rightarrow>
          (let vec = vector_m s @ [t] in
           case set_insert eq vec (set_m s)
                  (UniquifyRef_of_index (of_nat (length vec) - 1) (hash_val_m ref)) of
             Inl e \<Rightarrow> Inl e
           | Inr rs \<Rightarrow> Inr (True, s\<lparr>vector_m := vec, set_m := rs\<rparr>)))"

text \<open>
  \<open>bool push_back(T&& t)\<close>. The caller's object is part of the result: it is untouched
  when the call returns false and is left in its moved-from state \<open>moved t\<close> (valid but
  unspecified, hence a parameter) by \<open>std::move\<close>. The probe \<open>ref\<close> points to that
  object, so after the move it denotes \<open>moved t\<close>; the hash handed to the new reference
  is the one saved in \<open>ref_hash_val\<close> before.
\<close>

definition push_back_move ::
  "('a \<Rightarrow> 'a \<Rightarrow> bool) \<Rightarrow> ('a \<Rightarrow> size_t) \<Rightarrow> ('a \<Rightarrow> 'a) \<Rightarrow> 'a UniqueVector \<Rightarrow> 'a
     \<Rightarrow> failure + (bool \<times> 'a UniqueVector \<times> 'a)" where
  "push_back_move eq h moved s t =
     (let ref = UniquifyRef_of_value h t in
      case set_find eq (vector_m s) (set_m s) ref of
        Inl e \<Rightarrow> Inl e
      | Inr (Some _) \<Rightarrow> Inr (False, s, t)
      | Inr None \<Rightarrow>
          (let ref_hash_val = hash_val_m ref;
               vec = vector_m s @ [t];
               t' = moved t
           in case set_insert eq vec (set_m s)
                     (UniquifyRef_of_index (of_nat (length vec) - 1) ref_hash_val) of
                Inl e \<Rightarrow> Inl e
              | Inr rs \<Rightarrow> Inr (True, s\<lparr>vector_m := vec, set_m := rs\<rparr>, t')))"

text \<open>\<open>Append(begin, end)\<close>: \<open>push_back(*i)\<close> for each element, the flag dropped.\<close>

fun Append ::
  "('a \<Rightarrow> 'a \<Rightarrow> bool) \<Rightarrow> ('a \<Rightarrow> size_t) \<Rightarrow> 'a UniqueVector \<Rightarrow> 'a list
     \<Rightarrow> failure + 'a UniqueVector" where
  "Append eq h s [] = Inr s"
| "Append eq h s (x # xs) =
     (case push_back eq h s x of
        Inl e \<Rightarrow> Inl e
      | Inr (_, s') \<Rightarrow> Append eq h s' xs)"

text \<open>\<open>size_t IndexOf(const T& t) const\<close>\<close>

definition IndexOf ::
  "('a \<Rightarrow> 'a \<Rightarrow> bool) \<Rightarrow> ('a \<Rightarrow> size_t) \<Rightarrow> 'a UniqueVector \<Rightarrow> 'a \<Rightarrow> failure + size_t" where
  "IndexOf eq h s t =
     (let ref = UniquifyRef_of_value h t in
      case set_find eq (vector_m s) (set_m s) ref of
        Inl e \<Rightarrow> Inl e
      | Inr None \<Rightarrow> Inr (- 1)
      | Inr (Some found) \<Rightarrow> Inr (index_m found))"


subsection \<open>Requirements on \<open>T\<close> and the state invariant\<close>

text \<open>
  What the class needs from \<open>T\<close>: \<open>operator==\<close> is an equivalence and \<open>std::hash<T>\<close>
  gives equal values equal hashes.
\<close>

definition T_ok :: "('a \<Rightarrow> 'a \<Rightarrow> bool) \<Rightarrow> ('a \<Rightarrow> size_t) \<Rightarrow> bool" where
  "T_ok eq h \<longleftrightarrow>
     (\<forall>a. eq a a) \<and> (\<forall>a b. eq a b \<longrightarrow> eq b a) \<and>
     (\<forall>a b c. eq a b \<longrightarrow> eq b c \<longrightarrow> eq a c) \<and>
     (\<forall>a b. eq a b \<longrightarrow> h a = h b)"

text \<open>The reference that \<open>push_back\<close> commits for position \<open>k\<close> of \<open>vec\<close>.\<close>

definition committed :: "('a \<Rightarrow> size_t) \<Rightarrow> 'a list \<Rightarrow> nat \<Rightarrow> 'a UniquifyRef" where
  "committed h vec k = UniquifyRef_of_index (of_nat k) (h (vec ! k))"

text \<open>The index holds, in order, one committed reference for each position.\<close>

definition uv_indexed :: "('a \<Rightarrow> size_t) \<Rightarrow> 'a UniqueVector \<Rightarrow> bool" where
  "uv_indexed h s \<longleftrightarrow>
     set_m s = map (committed h (vector_m s)) [0..<length (vector_m s)]"

text \<open>No two positions hold equal values.\<close>

definition uv_distinct :: "('a \<Rightarrow> 'a \<Rightarrow> bool) \<Rightarrow> 'a list \<Rightarrow> bool" where
  "uv_distinct eq vec \<longleftrightarrow>
     (\<forall>i j. i < length vec \<and> j < length vec \<and> i \<noteq> j \<longrightarrow> \<not> eq (vec ! i) (vec ! j))"

text \<open>
  The invariant of the class. Its first part says that \<open>size()\<close>, a \<open>size_t\<close>, is the
  length of the vector: a vector has fewer than \<open>2 ^ 64\<close> elements.
\<close>

definition uv_inv :: "('a \<Rightarrow> 'a \<Rightarrow> bool) \<Rightarrow> ('a \<Rightarrow> size_t) \<Rightarrow> 'a UniqueVector \<Rightarrow> bool" where
  "uv_inv eq h s \<longleftrightarrow>
     length (vector_m s) < 2 ^ 64 \<and> uv_indexed h s \<and> uv_distinct eq (vector_m s)"

text \<open>
  The invariant as the data model words it: distinct positions hold unequal values, the
  index has as many references as the sequence has elements, and every reference is a
  committed one (null value pointer, vector pointer set) whose index is in range and
  whose cached hash is the hash of the element it denotes.
\<close>

definition stated_invariant ::
  "('a \<Rightarrow> 'a \<Rightarrow> bool) \<Rightarrow> ('a \<Rightarrow> size_t) \<Rightarrow> 'a UniqueVector \<Rightarrow> bool" where
  "stated_invariant eq h s \<longleftrightarrow>
     (\<forall>i j. i < length (vector_m s) \<and> j < length (vector_m s) \<and> i \<noteq> j
        \<longrightarrow> \<not> eq (vector_m s ! i) (vector_m s ! j)) \<and>
     length (set_m s) = length (vector_m s) \<and>
     (\<forall>r\<in>set (set_m s).
        value_m r = None \<and> vect_m r \<and> unat (index_m r) < length (vector_m s) \<and>
        ref_value (vector_m s) r = Inr (vector_m s ! unat (index_m r)) \<and>
        hash_val_m r = h (vector_m s ! unat (index_m r)))"

text \<open>
  What the data model says of a sequence of appends: each value is stored unless an equal
  one is stored already. Written from the specification, for comparison with \<open>Append\<close>.
\<close>

fun append_if_absent :: "('a \<Rightarrow> 'a \<Rightarrow> bool) \<Rightarrow> 'a list \<Rightarrow> 'a list \<Rightarrow> 'a list" where
  "append_if_absent eq acc [] = acc"
| "append_if_absent eq acc (x # xs) =
     append_if_absent eq (if list_ex (\<lambda>y. eq y x) acc then acc else acc @ [x]) xs"

text \<open>
  The mutating operations of the class, for runs of several calls: \<open>apply_operation\<close>
  performs one call and keeps the collection, \<open>run\<close> performs a list of calls in order
  and stops at the first failure. \<open>offered\<close> is the number of values a call offers to
  the collection, a bound on the growth of the vector.
\<close>

datatype 'a operation =
  Push_back 'a | Push_back_move 'a | Append_range "'a list" | Clear | Reserve size_t

fun apply_operation ::
  "('a \<Rightarrow> 'a \<Rightarrow> bool) \<Rightarrow> ('a \<Rightarrow> size_t) \<Rightarrow> ('a \<Rightarrow> 'a) \<Rightarrow> 'a UniqueVector \<Rightarrow> 'a operation
     \<Rightarrow> failure + 'a UniqueVector" where
  "apply_operation eq h moved s (Push_back t) =
     (case push_back eq h s t of Inl e \<Rightarrow> Inl e | Inr (_, s') \<Rightarrow> Inr s')"
| "apply_operation eq h moved s (Push_back_move t) =
     (case push_back_move eq h moved s t of Inl e \<Rightarrow> Inl e | Inr (_, s', _) \<Rightarrow> Inr s')"
| "apply_operation eq h moved s (Append_range xs) = Append eq h s xs"
| "apply_operation eq h moved s Clear = Inr (clear s)"
| "apply_operation eq h moved s (Reserve n) = Inr (reserve s n)"

fun run ::
  "('a \<Rightarrow> 'a \<Rightarrow> bool) \<Rightarrow> ('a \<Rightarrow> size_t) \<Rightarrow> ('a \<Rightarrow> 'a) \<Rightarrow> 'a UniqueVector \<Rightarrow> 'a operation list
     \<Rightarrow> failure + 'a UniqueVector" where
  "run eq h moved s [] = Inr s"
| "run eq h moved s (op # ops) =
     (case apply_operation eq h moved s op of
        Inl e \<Rightarrow> Inl e
      | Inr s' \<Rightarrow> run eq h moved s' ops)"

fun offered :: "'a operation \<Rightarrow> nat" where
  "offered (Push_back t) = 1"
| "offered (Push_back_move t) = 1"
| "offered (Append_range xs) = length xs"
| "offered Clear = 0"
| "offered (Reserve n) = 0"

text \<open>An instance for concrete runs: strings, hashed by their length.\<close>

definition length_hash :: "string \<Rightarrow> size_t" where
  "length_hash str = of_nat (length str)"

text \<open>The collection after appending \<open>"x"\<close> and \<open>"y"\<close> to an empty one.\<close>

definition example_xy :: "string UniqueVector" where
  "example_xy =
     \<lparr>set_m = [UniquifyRef_of_index 0 1, UniquifyRef_of_index 1 1],
      vector_m = [''x'', ''y'']\<rparr>"

section \<open>tools/gn/source_dir.h\<close>

subsection \<open>\<open>SourceDir\<close>\<close>

text \<open>The class has one data member, the string \<open>value_\<close>.\<close>

record SourceDir =
  value_sd :: string

text \<open>\<open>std::string_view(p, n)\<close> for a pointer \<open>p\<close> to position \<open>pos\<close> of a buffer.\<close>

definition string_view_at :: "string \<Rightarrow> nat \<Rightarrow> nat \<Rightarrow> string" where
  "string_view_at buf pos n = take n (drop pos buf)"

definition is_null :: "SourceDir \<Rightarrow> bool" where
  "is_null d = (value_sd d = [])"

text \<open>
  \<open>value_.size() >= 2 && value_[0] == '/' && value_[1] == '/'\<close>: the two characters are
  read only when the size test has passed.
\<close>

definition is_source_absolute :: "SourceDir \<Rightarrow> bool" where
  "is_source_absolute d =
     (length (value_sd d) \<ge> 2 \<and> value_sd d ! 0 = CHR ''/'' \<and> value_sd d ! 1 = CHR ''/'')"

definition is_system_absolute :: "SourceDir \<Rightarrow> bool" where
  "is_system_absolute d = (\<not> is_source_absolute d)"

text \<open>
  \<open>CHECK(is_source_absolute())\<close> aborts when the test fails. After it the size is at
  least 2, so \<open>value_.size() - 1\<close> does not wrap.
\<close>

definition SourceAbsoluteWithOneSlash :: "SourceDir \<Rightarrow> failure + string" where
  "SourceAbsoluteWithOneSlash d =
     (if is_source_absolute d
      then Inr (string_view_at (value_sd d) 1 (length (value_sd d) - 1))
      else Inl CHECK_failed)"

definition SourceWithNoTrailingSlash :: "SourceDir \<Rightarrow> string" where
  "SourceWithNoTrailingSlash d =
     (if length (value_sd d) > 2
      then string_view_at (value_sd d) 0 (length (value_sd d) - 1)
      else value_sd d)"

text \<open>
  \<open>operator==\<close>, \<open>operator!=\<close> and \<open>operator<\<close> apply the operators of \<open>std::string\<close>
  to the two values. Equality of strings is equality of their character sequences;
  \<open>string_less\<close> is \<open>operator<\<close> of \<open>std::string\<close>: the first position where the two
  differ decides, by the characters read as unsigned bytes, and a proper prefix is less.
\<close>

fun string_less :: "string \<Rightarrow> string \<Rightarrow> bool" where
  "string_less [] [] = False"
| "string_less [] (y # ys) = True"
| "string_less (x # xs) [] = False"
| "string_less (x # xs) (y # ys) =
     (if (of_char x :: nat) < of_char y then True
      else if (of_char y :: nat) < of_char x then False
      else string_less xs ys)"

definition SourceDir_eq :: "SourceDir \<Rightarrow> SourceDir \<Rightarrow> bool" where
  "SourceDir_eq a other = (value_sd a = value_sd other)"

definition SourceDir_ne :: "SourceDir \<Rightarrow> SourceDir \<Rightarrow> bool" where
  "SourceDir_ne a other = (\<not> SourceDir_eq a other)"

definition SourceDir_less :: "SourceDir \<Rightarrow> SourceDir \<Rightarrow> bool" where
  "SourceDir_less a other = string_less (value_sd a) (value_sd other)"

text \<open>
  \<open>std::hash<SourceDir>\<close> applies \<open>std::hash<std::string>\<close>, a function of the standard
  library and here the parameter \<open>string_hash\<close>, to \<open>value()\<close>.
\<close>

definition SourceDir_hash :: "(string \<Rightarrow> size_t) \<Rightarrow> SourceDir \<Rightarrow> size_t" where
  "SourceDir_hash string_hash v = string_hash (value_sd v)"

text \<open>
  The convention of the data model for the stored string: empty, or beginning and ending
  with a separator.
\<close>

definition separator_convention :: "string \<Rightarrow> bool" where
  "separator_convention v \<longleftrightarrow> v = [] \<or> (hd v = CHR ''/'' \<and> last v = CHR ''/'')"

subsection \<open>\<open>SourceDir::ResolveRelativeAs\<close>\<close>

text \<open>
  The header declares \<open>ResolveRelativeAs\<close>; its definition is in \<open>source_dir.cc\<close>,
  which is not among the sources, and neither are the classes \<open>Err\<close> and \<open>Value\<close>.
  Everything in this subsection is therefore written from the specification.
\<close>

text \<open>
  Modelled from the spec: the error object \<open>Err\<close> (sections 6 and 7), which is missing.
  An error is the kind of failure with the value to blame; the blamed \<open>Value\<close> is of any
  type \<open>'v\<close>, and the \<open>Err*\<close> argument of a call is the error stored in the caller's
  object, \<open>None\<close> while none is set.
\<close>

datatype ErrKind = EmptyInput | PathEscapesRoot | MalformedAbsolutePath

record 'v Err =
  err_kind :: ErrKind
  err_blame :: 'v

text \<open>
  Modelled from the spec: the segments of a path, the text between separators, for the
  lexical collapsing of section 4.2.
\<close>

fun split_path :: "string \<Rightarrow> string list" where
  "split_path [] = [[]]"
| "split_path (c # cs) =
     (if c = CHR ''/'' then [] # split_path cs
      else (case split_path cs of
              [] \<Rightarrow> [[c]]
            | seg # segs \<Rightarrow> (c # seg) # segs))"

text \<open>
  Modelled from the spec: lexical collapsing (section 4.2). Empty and \<open>"."\<close> segments are dropped, \<open>".."\<close> removes the
  segment before it, and there is no result when \<open>".."\<close> would move above the root.
\<close>

fun collapse :: "string list \<Rightarrow> string list \<Rightarrow> string list option" where
  "collapse acc [] = Some acc"
| "collapse acc (seg # segs) =
     (if seg = [] \<or> seg = ''.'' then collapse acc segs
      else if seg = ''..'' then (if acc = [] then None else collapse (butlast acc) segs)
      else collapse (acc @ [seg]) segs)"

text \<open>Modelled from the spec: the path of a list of segments, each followed by a separator.\<close>

definition join_path :: "string list \<Rightarrow> string" where
  "join_path segs = concat (map (\<lambda>seg. seg @ ''/'') segs)"

text \<open>
  Modelled from the spec: the two absolute forms of an input string (section 4.2), two
  leading separators for source-absolute and one for system-absolute.
\<close>

definition starts_with_two_separators :: "string \<Rightarrow> bool" where
  "starts_with_two_separators str = (take 2 str = ''//'')"

definition starts_with_separator :: "string \<Rightarrow> bool" where
  "starts_with_separator str = (take 1 str = ''/'')"

text \<open>
  Modelled from the spec: the effect of the flag on an absolute input (section 4.2). For
  a directory the trailing separator is enforced; a file is returned as it is.
\<close>

definition as_file_or_dir :: "bool \<Rightarrow> string \<Rightarrow> string" where
  "as_file_or_dir as_file path =
     (if as_file \<or> (path \<noteq> [] \<and> last path = CHR ''/'') then path else path @ ''/'')"

text \<open>
  Modelled from the spec: the body of \<open>SourceDir::ResolveRelativeAs\<close>, which is missing
  (section 4.2, \<open>resolveRelative\<close>, and the error kinds of section 7). An empty input is
  an error. A source-absolute input is used as it is, after the check that its \<open>".."\<close>
  segments do not leave the source tree. A system-absolute input is rewritten relative
  to the source root when a root is supplied (a non-empty \<open>source_root\<close>) and is a
  prefix of it, and is left unchanged otherwise. A relative input is appended to the
  value of this directory and the result collapsed. The specification does not say
  which absolute forms are malformed, so no input is rejected as such here.
\<close>

definition resolve_relative :: "SourceDir \<Rightarrow> bool \<Rightarrow> string \<Rightarrow> string \<Rightarrow> ErrKind + string" where
  "resolve_relative base as_file input_value source_root =
     (if input_value = [] then Inl EmptyInput
      else if starts_with_two_separators input_value then
        (case collapse [] (split_path input_value) of
           None \<Rightarrow> Inl PathEscapesRoot
         | Some _ \<Rightarrow> Inr (as_file_or_dir as_file input_value))
      else if starts_with_separator input_value then
        (if source_root \<noteq> [] \<and> take (length source_root) input_value = source_root
         then Inr (as_file_or_dir as_file
                (''//'' @ dropWhile (\<lambda>c. c = CHR ''/'') (drop (length source_root) input_value)))
         else Inr (as_file_or_dir as_file input_value))
      else
        (let joined = value_sd base @ input_value;
             root = (if starts_with_two_separators joined then ''//'' else ''/'')
         in case collapse [] (split_path joined) of
              None \<Rightarrow> Inl PathEscapesRoot
            | Some segs \<Rightarrow>
                Inr (if as_file \<and> segs \<noteq> [] then butlast (root @ join_path segs)
                     else root @ join_path segs)))"

text \<open>
  Modelled from the spec: the declared interface around that body. The result is the
  returned string with the error object after the call: on an error the string is empty
  and the error is set, blaming \<open>blame_input_value\<close>; otherwise the resolved string is
  returned and the error object is the one passed in.
\<close>

definition ResolveRelativeAs ::
  "SourceDir \<Rightarrow> bool \<Rightarrow> 'v \<Rightarrow> string \<Rightarrow> 'v Err option \<Rightarrow> string \<Rightarrow> string \<times> 'v Err option" where
  "ResolveRelativeAs base as_file blame_input_value input_value err source_root =
     (case resolve_relative base as_file input_value source_root of
        Inl k \<Rightarrow> ([], Some \<lparr>err_kind = k, err_blame = blame_input_value\<rparr>)
      | Inr resolved \<Rightarrow> (resolved, err))"

text \<open>
  Modelled from the spec: the overload that takes the \<open>Value\<close> itself, also defined in
  the missing file. By the comment on its declaration the string resolved is \<open>*v_value\<close>
  when that pointer is not null and the string of \<open>v\<close> otherwise; \<open>string_value\<close>
  reads the string of a \<open>Value\<close>.
\<close>

definition ResolveRelativeAs_value ::
  "('v \<Rightarrow> string) \<Rightarrow> SourceDir \<Rightarrow> bool \<Rightarrow> 'v \<Rightarrow> 'v Err option \<Rightarrow> string \<Rightarrow> string option
     \<Rightarrow> string \<times> 'v Err option" where
  "ResolveRelativeAs_value string_value base as_file v err source_root v_value =
     ResolveRelativeAs base as_file v
       (case v_value of None \<Rightarrow> string_value v | Some str \<Rightarrow> str) err source_root"

section \<open>Properties of \<open>UniqueVector\<close>\<close>

subsection \<open>References and lookups\<close>

lemma T_ok_refl: "T_ok eq h \<Longrightarrow> eq a a"
  unfolding T_ok_def by blast

lemma T_ok_sym: "T_ok eq h \<Longrightarrow> eq a b \<Longrightarrow> eq b a"
  unfolding T_ok_def by blast

lemma T_ok_trans: "T_ok eq h \<Longrightarrow> eq a b \<Longrightarrow> eq b c \<Longrightarrow> eq a c"
  unfolding T_ok_def by blast

lemma T_ok_hash: "T_ok eq h \<Longrightarrow> eq a b \<Longrightarrow> h a = h b"
  unfolding T_ok_def by blast

lemma T_ok_length_hash: "T_ok (=) length_hash"
  by (simp add: T_ok_def)

lemma ref_value_of_value [simp]: "ref_value vec (UniquifyRef_of_value h t) = Inr t"
  by (simp add: ref_value_def UniquifyRef_of_value_def)

lemma hash_val_of_value [simp]: "hash_val_m (UniquifyRef_of_value h t) = h t"
  by (simp add: UniquifyRef_of_value_def)

lemma hash_val_committed [simp]: "hash_val_m (committed h vec k) = h (vec ! k)"
  by (simp add: committed_def UniquifyRef_of_index_def)

lemma index_committed [simp]: "index_m (committed h vec k) = of_nat k"
  by (simp add: committed_def UniquifyRef_of_index_def)

lemma unat_of_nat_size_t: "k < 2 ^ 64 \<Longrightarrow> unat (of_nat k :: size_t) = k"
  by (simp add: unat_of_nat)

lemma ref_value_committed:
  "k < length vec \<Longrightarrow> length vec \<le> 2 ^ 64
     \<Longrightarrow> ref_value vec (committed h vec0 k) = Inr (vec ! k)"
  by (simp add: ref_value_def committed_def UniquifyRef_of_index_def unat_of_nat_size_t)

lemma ref_eq_committed:
  "ref_value vec k = Inr t \<Longrightarrow> j < length vec \<Longrightarrow> length vec \<le> 2 ^ 64
     \<Longrightarrow> ref_eq eq vec k (committed h vec0 j) = Inr (eq t (vec ! j))"
  by (simp add: ref_eq_def ref_value_committed)

lemma committed_append:
  "map (committed h (vec @ [t])) [0..<length vec] = map (committed h vec) [0..<length vec]"
  by (simp add: committed_def nth_append)

lemma set_find_miss:
  "(\<forall>r\<in>set rs. hash_val_m r = hash_val_m k \<longrightarrow> ref_eq eq vec k r = Inr False)
     \<Longrightarrow> set_find eq vec rs k = Inr None"
  by (induction rs) auto

lemma set_find_hit:
  "(\<forall>p\<in>set ps. hash_val_m p = hash_val_m k \<longrightarrow> ref_eq eq vec k p = Inr False)
     \<Longrightarrow> hash_val_m r = hash_val_m k \<Longrightarrow> ref_eq eq vec k r = Inr True
     \<Longrightarrow> set_find eq vec (ps @ r # qs) k = Inr (Some r)"
  by (induction ps) auto

lemma set_find_committed_miss:
  assumes "ref_value vec k = Inr t" "n \<le> length vec" "length vec \<le> 2 ^ 64"
    and "\<forall>i<n. \<not> eq t (vec ! i)"
  shows "set_find eq vec (map (committed h vec0) [0..<n]) k = Inr None"
proof (rule set_find_miss, rule ballI, rule impI)
  fix r assume "r \<in> set (map (committed h vec0) [0..<n])"
  then obtain i where i: "i < n" "r = committed h vec0 i" by auto
  with assms have "ref_eq eq vec k r = Inr (eq t (vec ! i))"
    by (simp add: ref_eq_committed)
  with assms i show "ref_eq eq vec k r = Inr False" by simp
qed

lemma set_find_committed_hit:
  assumes "ref_value vec k = Inr t" "n \<le> length vec" "length vec \<le> 2 ^ 64"
    and "i < n" "eq t (vec ! i)" "\<forall>j<i. \<not> eq t (vec ! j)" "hash_val_m k = h (vec0 ! i)"
  shows "set_find eq vec (map (committed h vec0) [0..<n]) k = Inr (Some (committed h vec0 i))"
proof -
  have "[0..<n] = [0..<i] @ i # [Suc i..<n]"
    using \<open>i < n\<close>
    by (metis le_add_diff_inverse less_imp_le_nat upt_add_eq_append upt_conv_Cons zero_le)
  then have split: "map (committed h vec0) [0..<n]
      = map (committed h vec0) [0..<i] @ committed h vec0 i # map (committed h vec0) [Suc i..<n]"
    by simp
  have front: "\<forall>p\<in>set (map (committed h vec0) [0..<i]).
      hash_val_m p = hash_val_m k \<longrightarrow> ref_eq eq vec k p = Inr False"
  proof (rule ballI, rule impI)
    fix p assume "p \<in> set (map (committed h vec0) [0..<i])"
    then obtain j where j: "j < i" "p = committed h vec0 j" by auto
    with assms have "ref_eq eq vec k p = Inr (eq t (vec ! j))"
      by (simp add: ref_eq_committed)
    with assms j show "ref_eq eq vec k p = Inr False" by simp
  qed
  have here: "ref_eq eq vec k (committed h vec0 i) = Inr True"
    using assms by (simp add: ref_eq_committed)
  have hv: "hash_val_m (committed h vec0 i) = hash_val_m k"
    using assms by simp
  show ?thesis
    unfolding split by (rule set_find_hit [OF front hv here])
qed

subsection \<open>Lookups in a well-formed collection\<close>

lemma uv_distinct_unique_match:
  assumes ok: "T_ok eq h" and d: "uv_distinct eq vec"
    and i: "i < length vec" "eq (vec ! i) t"
    and j: "j < length vec" "eq t (vec ! j)"
  shows "j = i"
proof (rule ccontr)
  assume "j \<noteq> i"
  moreover have "eq (vec ! i) (vec ! j)"
    using T_ok_trans [OF ok i(2) j(2)] .
  ultimately show False using d i(1) j(1) unfolding uv_distinct_def by blast
qed

lemma set_find_present:
  assumes ok: "T_ok eq h" and len: "length (vector_m s) \<le> 2 ^ 64"
    and ix: "uv_indexed h s" and d: "uv_distinct eq (vector_m s)"
    and i: "i < length (vector_m s)" "eq (vector_m s ! i) t"
  shows "set_find eq (vector_m s) (set_m s) (UniquifyRef_of_value h t)
           = Inr (Some (committed h (vector_m s) i))"
proof -
  have eq_ti: "eq t (vector_m s ! i)" using T_ok_sym [OF ok i(2)] .
  have before: "\<forall>j<i. \<not> eq t (vector_m s ! j)"
  proof (intro allI impI notI)
    fix j assume j: "j < i" "eq t (vector_m s ! j)"
    with i(1) have "j < length (vector_m s)" by simp
    from uv_distinct_unique_match [OF ok d i this j(2)] j(1) show False by simp
  qed
  have hv: "hash_val_m (UniquifyRef_of_value h t) = h (vector_m s ! i)"
    using T_ok_hash [OF ok eq_ti] by simp
  have "set_find eq (vector_m s) (map (committed h (vector_m s)) [0..<length (vector_m s)])
          (UniquifyRef_of_value h t) = Inr (Some (committed h (vector_m s) i))"
    using len i(1) eq_ti before hv
    by (intro set_find_committed_hit [where t = t]) simp_all
  then show ?thesis using ix by (simp add: uv_indexed_def)
qed

lemma set_find_absent:
  assumes ok: "T_ok eq h" and len: "length (vector_m s) \<le> 2 ^ 64"
    and ix: "uv_indexed h s"
    and no: "\<forall>i<length (vector_m s). \<not> eq (vector_m s ! i) t"
  shows "set_find eq (vector_m s) (set_m s) (UniquifyRef_of_value h t) = Inr None"
proof -
  have no': "\<forall>i<length (vector_m s). \<not> eq t (vector_m s ! i)"
    using no T_ok_sym [OF ok] by blast
  have "set_find eq (vector_m s) (map (committed h (vector_m s)) [0..<length (vector_m s)])
          (UniquifyRef_of_value h t) = Inr None"
    using len no' by (intro set_find_committed_miss [where t = t]) simp_all
  then show ?thesis using ix by (simp add: uv_indexed_def)
qed

lemma set_insert_new:
  assumes ok: "T_ok eq h" and len: "length (vector_m s) < 2 ^ 64"
    and ix: "uv_indexed h s"
    and no: "\<forall>i<length (vector_m s). \<not> eq (vector_m s ! i) t"
  shows "set_insert eq (vector_m s @ [t]) (set_m s)
           (UniquifyRef_of_index (of_nat (length (vector_m s @ [t])) - 1) (h t))
         = Inr (map (committed h (vector_m s @ [t])) [0..<length (vector_m s @ [t])])"
proof -
  let ?v = "vector_m s" and ?v' = "vector_m s @ [t]"
  have new: "UniquifyRef_of_index (of_nat (length ?v') - 1) (h t) = committed h ?v' (length ?v)"
    by (simp add: committed_def)
  have val: "ref_value ?v' (committed h ?v' (length ?v)) = Inr t"
    using len by (simp add: ref_value_committed)
  have no': "\<forall>i<length ?v. \<not> eq t (?v' ! i)"
    using no T_ok_sym [OF ok] by (auto simp: nth_append)
  have "set_find eq ?v' (map (committed h ?v) [0..<length ?v]) (committed h ?v' (length ?v))
          = Inr None"
    using len val no' by (intro set_find_committed_miss [where t = t]) simp_all
  then have "set_find eq ?v' (set_m s) (committed h ?v' (length ?v)) = Inr None"
    using ix by (simp add: uv_indexed_def)
  moreover have "set_m s = map (committed h ?v') [0..<length ?v]"
    using ix by (simp add: uv_indexed_def committed_append)
  ultimately show ?thesis
    unfolding new by (simp add: set_insert_def)
qed

subsection \<open>\<open>push_back\<close>\<close>

lemma push_back_present:
  assumes "T_ok eq h" "length (vector_m s) \<le> 2 ^ 64" "uv_indexed h s"
    and "uv_distinct eq (vector_m s)" "i < length (vector_m s)" "eq (vector_m s ! i) t"
  shows "push_back eq h s t = Inr (False, s)"
  using set_find_present [OF assms] by (simp add: push_back_def)

lemma push_back_absent:
  assumes ok: "T_ok eq h" and inv: "uv_inv eq h s"
    and no: "\<forall>i<length (vector_m s). \<not> eq (vector_m s ! i) t"
  shows "push_back eq h s t
         = Inr (True, s\<lparr>vector_m := vector_m s @ [t],
                        set_m := map (committed h (vector_m s @ [t]))
                                   [0..<length (vector_m s @ [t])]\<rparr>)"
proof -
  from inv have len: "length (vector_m s) < 2 ^ 64" and ix: "uv_indexed h s"
    by (simp_all add: uv_inv_def)
  from len have len': "length (vector_m s) \<le> 2 ^ 64" by simp
  show ?thesis
    using set_find_absent [OF ok len' ix no] set_insert_new [OF ok len ix no]
    by (simp add: push_back_def Let_def)
qed

lemma uv_distinct_snoc:
  assumes ok: "T_ok eq h" and d: "uv_distinct eq vec"
    and no: "\<forall>i<length vec. \<not> eq (vec ! i) t"
  shows "uv_distinct eq (vec @ [t])"
proof -
  have no': "\<forall>i<length vec. \<not> eq t (vec ! i)"
    using no T_ok_sym [OF ok] by blast
  show ?thesis
    unfolding uv_distinct_def using no no' d [unfolded uv_distinct_def]
    by (auto simp: nth_append less_Suc_eq)
qed

lemma uv_inv_new: "uv_inv eq h UniqueVector_new"
  by (simp add: uv_inv_def uv_indexed_def uv_distinct_def UniqueVector_new_def)

lemma uv_inv_clear: "uv_inv eq h (clear s)"
  by (simp add: uv_inv_def uv_indexed_def uv_distinct_def clear_def)

lemma push_back_total:
  assumes ok: "T_ok eq h" and inv: "uv_inv eq h s"
  shows "\<exists>b s'. push_back eq h s t = Inr (b, s') \<and>
           vector_m s' = (if b then vector_m s @ [t] else vector_m s) \<and>
           uv_indexed h s' \<and> uv_distinct eq (vector_m s') \<and>
           (b \<longleftrightarrow> (\<forall>i<length (vector_m s). \<not> eq (vector_m s ! i) t))"
proof (cases "\<forall>i<length (vector_m s). \<not> eq (vector_m s ! i) t")
  case True
  from inv have d: "uv_distinct eq (vector_m s)" by (simp add: uv_inv_def)
  let ?s' = "s\<lparr>vector_m := vector_m s @ [t],
                set_m := map (committed h (vector_m s @ [t])) [0..<length (vector_m s @ [t])]\<rparr>"
  have "push_back eq h s t = Inr (True, ?s')"
    by (rule push_back_absent [OF ok inv True])
  moreover have "uv_indexed h ?s'" by (simp add: uv_indexed_def)
  moreover have "uv_distinct eq (vector_m ?s')"
    using uv_distinct_snoc [OF ok d True] by simp
  moreover have "vector_m ?s' = vector_m s @ [t]" by simp
  ultimately show ?thesis using True by (intro exI [of _ True] exI [of _ ?s']) simp
next
  case False
  then obtain i where i: "i < length (vector_m s)" "eq (vector_m s ! i) t" by blast
  from inv have "length (vector_m s) \<le> 2 ^ 64" "uv_indexed h s" "uv_distinct eq (vector_m s)"
    by (simp_all add: uv_inv_def)
  from push_back_present [OF ok this i] this False show ?thesis
    by (intro exI [of _ False] exI [of _ s]) simp
qed

lemma push_back_move_eq:
  "push_back_move eq h moved s t =
     (case push_back eq h s t of
        Inl e \<Rightarrow> Inl e
      | Inr (b, s') \<Rightarrow> Inr (b, s', if b then moved t else t))"
  by (simp add: push_back_move_def push_back_def Let_def split: sum.splits option.splits)

lemma list_ex_nth: "list_ex P xs \<longleftrightarrow> (\<exists>i<length xs. P (xs ! i))"
  by (metis list_ex_iff in_set_conv_nth)

lemma Append_inv:
  assumes ok: "T_ok eq h"
  shows "uv_inv eq h s \<Longrightarrow> length (vector_m s) + length xs < 2 ^ 64
     \<Longrightarrow> \<exists>s'. Append eq h s xs = Inr s' \<and> uv_inv eq h s' \<and>
            vector_m s' = append_if_absent eq (vector_m s) xs"
proof (induction xs arbitrary: s)
  case Nil
  then show ?case by simp
next
  case (Cons x xs)
  from push_back_total [OF ok Cons.prems(1), of x]
  obtain b s1 where pb: "push_back eq h s x = Inr (b, s1)"
    and v1: "vector_m s1 = (if b then vector_m s @ [x] else vector_m s)"
    and ix: "uv_indexed h s1" and d: "uv_distinct eq (vector_m s1)"
    and b: "b \<longleftrightarrow> (\<forall>i<length (vector_m s). \<not> eq (vector_m s ! i) x)"
    by blast
  from v1 Cons.prems(2) have room: "length (vector_m s1) + length xs < 2 ^ 64"
    by (simp split: if_splits)
  then have "length (vector_m s1) < 2 ^ 64" by simp
  with ix d have inv1: "uv_inv eq h s1" by (simp add: uv_inv_def)
  from Cons.IH [OF inv1 room]
  obtain s' where s': "Append eq h s1 xs = Inr s'" "uv_inv eq h s'"
    "vector_m s' = append_if_absent eq (vector_m s1) xs" by blast
  have "vector_m s1 = (if list_ex (\<lambda>y. eq y x) (vector_m s) then vector_m s else vector_m s @ [x])"
    using v1 b by (auto simp: list_ex_nth)
  with s' pb show ?case by simp
qed

text \<open>
  C1. In a collection satisfying the invariant, for a type \<open>T\<close> with consistent equality
  and hash: if an element equal to \<open>v\<close> is stored, \<open>push_back\<close> returns false and the
  collection (sequence and index) is the one before the call. Otherwise it returns true,
  the new sequence is the old one followed by \<open>v\<close>, so \<open>v\<close> is at position \<open>size()\<close>
  of before and the earlier elements keep their positions, the length and \<open>size()\<close> grow
  by exactly 1, a second \<open>push_back\<close> of \<open>v\<close> returns false and changes nothing, and no
  two positions of the new sequence hold equal values. Hence a sequence of appends
  stores, in their order, the values that had no equal stored before them, as long as
  the lengths involved are of type \<open>size_t\<close>.
\<close>

theorem push_back_contract:
  assumes ok: "T_ok eq h" and inv: "uv_inv eq h s"
  shows
    "((\<exists>i<length (vector_m s). eq (vector_m s ! i) v) \<longrightarrow>
        push_back eq h s v = Inr (False, s)) \<and>
     ((\<forall>i<length (vector_m s). \<not> eq (vector_m s ! i) v) \<longrightarrow>
        (\<exists>s'. push_back eq h s v = Inr (True, s') \<and>
           vector_m s' = vector_m s @ [v] \<and>
           subscript s' (size_uv s) = Inr v \<and>
           length (vector_m s') = length (vector_m s) + 1 \<and>
           size_uv s' = size_uv s + 1 \<and>
           push_back eq h s' v = Inr (False, s') \<and>
           uv_distinct eq (vector_m s'))) \<and>
     (length (vector_m s) + length xs < 2 ^ 64 \<longrightarrow>
        (\<exists>s'. Append eq h s xs = Inr s' \<and>
           vector_m s' = append_if_absent eq (vector_m s) xs \<and>
           uv_distinct eq (vector_m s')))"
proof -
  have present: "(\<exists>i<length (vector_m s). eq (vector_m s ! i) v) \<longrightarrow>
        push_back eq h s v = Inr (False, s)"
  proof
    assume "\<exists>i<length (vector_m s). eq (vector_m s ! i) v"
    then obtain i where i: "i < length (vector_m s)" "eq (vector_m s ! i) v" by blast
    from inv have "length (vector_m s) \<le> 2 ^ 64" "uv_indexed h s" "uv_distinct eq (vector_m s)"
      by (simp_all add: uv_inv_def)
    from push_back_present [OF ok this i] show "push_back eq h s v = Inr (False, s)" .
  qed
  have absent: "(\<forall>i<length (vector_m s). \<not> eq (vector_m s ! i) v) \<longrightarrow>
        (\<exists>s'. push_back eq h s v = Inr (True, s') \<and>
           vector_m s' = vector_m s @ [v] \<and>
           subscript s' (size_uv s) = Inr v \<and>
           length (vector_m s') = length (vector_m s) + 1 \<and>
           size_uv s' = size_uv s + 1 \<and>
           push_back eq h s' v = Inr (False, s') \<and>
           uv_distinct eq (vector_m s'))"
  proof
    assume no: "\<forall>i<length (vector_m s). \<not> eq (vector_m s ! i) v"
    let ?s' = "s\<lparr>vector_m := vector_m s @ [v],
                  set_m := map (committed h (vector_m s @ [v]))
                             [0..<length (vector_m s @ [v])]\<rparr>"
    from inv have len: "length (vector_m s) < 2 ^ 64" and d: "uv_distinct eq (vector_m s)"
      by (simp_all add: uv_inv_def)
    have pb: "push_back eq h s v = Inr (True, ?s')"
      by (rule push_back_absent [OF ok inv no])
    have d': "uv_distinct eq (vector_m ?s')"
      using uv_distinct_snoc [OF ok d no] by simp
    have ix': "uv_indexed h ?s'" by (simp add: uv_indexed_def)
    have len': "length (vector_m ?s') \<le> 2 ^ 64" using len by simp
    have last: "length (vector_m s) < length (vector_m ?s')"
      "eq (vector_m ?s' ! length (vector_m s)) v"
      using T_ok_refl [OF ok] by simp_all
    have again: "push_back eq h ?s' v = Inr (False, ?s')"
      by (rule push_back_present [OF ok len' ix' d' last])
    have sub: "subscript ?s' (size_uv s) = Inr v"
      using len by (simp add: subscript_def size_uv_def unat_of_nat_size_t)
    have sz: "size_uv ?s' = size_uv s + 1" by (simp add: size_uv_def)
    show "\<exists>s'. push_back eq h s v = Inr (True, s') \<and>
             vector_m s' = vector_m s @ [v] \<and>
             subscript s' (size_uv s) = Inr v \<and>
             length (vector_m s') = length (vector_m s) + 1 \<and>
             size_uv s' = size_uv s + 1 \<and>
             push_back eq h s' v = Inr (False, s') \<and>
             uv_distinct eq (vector_m s')"
      using pb sub sz again d' by (intro exI [of _ ?s']) simp
  qed
  have many: "length (vector_m s) + length xs < 2 ^ 64 \<longrightarrow>
        (\<exists>s'. Append eq h s xs = Inr s' \<and>
           vector_m s' = append_if_absent eq (vector_m s) xs \<and>
           uv_distinct eq (vector_m s'))"
    using Append_inv [OF ok inv, of xs] unfolding uv_inv_def by blast
  from present absent many show ?thesis by (intro conjI)
qed

lemma uv_inv_example_xy: "uv_inv (=) length_hash example_xy"
  by (auto simp: uv_inv_def uv_indexed_def uv_distinct_def example_xy_def committed_def
      length_hash_def less_Suc_eq)

theorem push_back_contract_witness:
  "T_ok (=) length_hash \<and> uv_inv (=) length_hash example_xy \<and>
   push_back (=) length_hash example_xy ''x'' = Inr (False, example_xy) \<and>
   (\<exists>s'. push_back (=) length_hash example_xy ''z'' = Inr (True, s') \<and>
      vector_m s' = [''x'', ''y'', ''z''] \<and> size_uv s' = 3 \<and>
      push_back (=) length_hash s' ''z'' = Inr (False, s')) \<and>
   (\<exists>s'. Append (=) length_hash UniqueVector_new [''x'', ''y'', ''x'', ''z''] = Inr s' \<and>
      vector_m s' = [''x'', ''y'', ''z''])"
proof -
  have x: "\<exists>i<length (vector_m example_xy). vector_m example_xy ! i = ''x''"
    by (rule exI [of _ 0]) (simp add: example_xy_def)
  have z: "\<forall>i<length (vector_m example_xy). vector_m example_xy ! i \<noteq> ''z''"
    by (simp add: example_xy_def less_Suc_eq nth_Cons')
  from push_back_contract [OF T_ok_length_hash uv_inv_example_xy, of "''x''"] x
  have 1: "push_back (=) length_hash example_xy ''x'' = Inr (False, example_xy)" by blast
  from push_back_contract [OF T_ok_length_hash uv_inv_example_xy, of "''z''"] z
  obtain s' where "push_back (=) length_hash example_xy ''z'' = Inr (True, s')"
    "vector_m s' = vector_m example_xy @ [''z'']" "size_uv s' = size_uv example_xy + 1"
    "push_back (=) length_hash s' ''z'' = Inr (False, s')" by blast
  then have 2: "\<exists>s'. push_back (=) length_hash example_xy ''z'' = Inr (True, s') \<and>
      vector_m s' = [''x'', ''y'', ''z''] \<and> size_uv s' = 3 \<and>
      push_back (=) length_hash s' ''z'' = Inr (False, s')"
    by (intro exI [of _ s']) (simp add: example_xy_def size_uv_def)
  have room: "length (vector_m (UniqueVector_new :: string UniqueVector))
      + length [''x'', ''y'', ''x'', ''z''] < 2 ^ 64"
    by (simp add: UniqueVector_new_def)
  from push_back_contract [OF T_ok_length_hash uv_inv_new,
      where xs = "[''x'', ''y'', ''x'', ''z'']"] room
  obtain s'' where "Append (=) length_hash UniqueVector_new [''x'', ''y'', ''x'', ''z''] = Inr s''"
    "vector_m s'' = append_if_absent (=) (vector_m (UniqueVector_new :: string UniqueVector))
       [''x'', ''y'', ''x'', ''z'']" by blast
  then have 3: "\<exists>s'. Append (=) length_hash UniqueVector_new [''x'', ''y'', ''x'', ''z''] = Inr s' \<and>
      vector_m s' = [''x'', ''y'', ''z'']"
    by (intro exI [of _ s'']) (simp add: UniqueVector_new_def)
  from T_ok_length_hash uv_inv_example_xy 1 2 3 show ?thesis by blast
qed

subsection \<open>The invariant\<close>

lemma uv_inv_stated:
  assumes inv: "uv_inv eq h s"
  shows "stated_invariant eq h s"
proof -
  from inv have len: "length (vector_m s) < 2 ^ 64"
    and ix: "set_m s = map (committed h (vector_m s)) [0..<length (vector_m s)]"
    and d: "uv_distinct eq (vector_m s)"
    by (simp_all add: uv_inv_def uv_indexed_def)
  have refs: "\<forall>r\<in>set (set_m s).
        value_m r = None \<and> vect_m r \<and> unat (index_m r) < length (vector_m s) \<and>
        ref_value (vector_m s) r = Inr (vector_m s ! unat (index_m r)) \<and>
        hash_val_m r = h (vector_m s ! unat (index_m r))"
  proof
    fix r assume "r \<in> set (set_m s)"
    with ix obtain k where k: "k < length (vector_m s)" "r = committed h (vector_m s) k"
      by auto
    from k(1) len have u: "unat (of_nat k :: size_t) = k"
      by (simp add: unat_of_nat_size_t)
    from k(1) len have "ref_value (vector_m s) r = Inr (vector_m s ! k)"
      unfolding k(2) by (intro ref_value_committed) simp_all
    with k u show "value_m r = None \<and> vect_m r \<and> unat (index_m r) < length (vector_m s) \<and>
        ref_value (vector_m s) r = Inr (vector_m s ! unat (index_m r)) \<and>
        hash_val_m r = h (vector_m s ! unat (index_m r))"
      by (simp add: committed_def UniquifyRef_of_index_def)
  qed
  have "length (set_m s) = length (vector_m s)" using ix by simp
  with refs d show ?thesis
    unfolding stated_invariant_def uv_distinct_def by blast
qed

lemma uv_inv_push_back:
  assumes ok: "T_ok eq h" and inv: "uv_inv eq h s"
  shows "\<exists>b s'. push_back eq h s t = Inr (b, s') \<and>
           (length (vector_m s') < 2 ^ 64 \<longrightarrow> uv_inv eq h s')"
  using push_back_total [OF ok inv, of t] unfolding uv_inv_def by blast

lemma Append_prefix:
  "Append eq h s xs = Inr s' \<Longrightarrow> \<exists>ys. vector_m s' = vector_m s @ ys"
proof (induction xs arbitrary: s)
  case Nil
  then show ?case by simp
next
  case (Cons x xs)
  then obtain b s1 where pb: "push_back eq h s x = Inr (b, s1)" and ap: "Append eq h s1 xs = Inr s'"
    by (auto split: sum.splits)
  from pb have "vector_m s1 = vector_m s \<or> vector_m s1 = vector_m s @ [x]"
    by (auto simp: push_back_def Let_def split: sum.splits option.splits)
  with Cons.IH [OF ap] show ?case by auto
qed

lemma length_append_if_absent:
  "length (append_if_absent eq acc xs) \<le> length acc + length xs"
proof (induction xs arbitrary: acc)
  case Nil
  then show ?case by simp
next
  case (Cons x xs)
  have "length (append_if_absent eq (if list_ex (\<lambda>y. eq y x) acc then acc else acc @ [x]) xs)
      \<le> length (if list_ex (\<lambda>y. eq y x) acc then acc else acc @ [x]) + length xs"
    by (rule Cons.IH)
  then show ?case by (simp split: if_splits)
qed

lemma apply_operation_inv:
  assumes ok: "T_ok eq h" and inv: "uv_inv eq h s"
    and room: "length (vector_m s) + offered op < 2 ^ 64"
  shows "\<exists>s'. apply_operation eq h moved s op = Inr s' \<and> uv_inv eq h s' \<and>
           length (vector_m s') \<le> length (vector_m s) + offered op"
proof (cases op)
  case (Push_back t)
  from push_back_total [OF ok inv, of t]
  obtain b s' where pb: "push_back eq h s t = Inr (b, s')"
    and v: "vector_m s' = (if b then vector_m s @ [t] else vector_m s)"
    and ix: "uv_indexed h s'" "uv_distinct eq (vector_m s')" by blast
  from v have le: "length (vector_m s') \<le> length (vector_m s) + 1" by (simp split: if_splits)
  with room Push_back have "length (vector_m s') < 2 ^ 64" by simp
  with ix have "uv_inv eq h s'" by (simp add: uv_inv_def)
  with pb le Push_back show ?thesis by simp
next
  case (Push_back_move t)
  from push_back_total [OF ok inv, of t]
  obtain b s' where pb: "push_back eq h s t = Inr (b, s')"
    and v: "vector_m s' = (if b then vector_m s @ [t] else vector_m s)"
    and ix: "uv_indexed h s'" "uv_distinct eq (vector_m s')" by blast
  from v have le: "length (vector_m s') \<le> length (vector_m s) + 1" by (simp split: if_splits)
  with room Push_back_move have "length (vector_m s') < 2 ^ 64" by simp
  with ix have "uv_inv eq h s'" by (simp add: uv_inv_def)
  with pb le Push_back_move show ?thesis by (simp add: push_back_move_eq)
next
  case (Append_range xs)
  with room have "length (vector_m s) + length xs < 2 ^ 64" by simp
  from Append_inv [OF ok inv this]
  obtain s' where s': "Append eq h s xs = Inr s'" "uv_inv eq h s'"
    "vector_m s' = append_if_absent eq (vector_m s) xs" by blast
  with length_append_if_absent [of eq "vector_m s" xs] Append_range show ?thesis by simp
next
  case Clear
  then show ?thesis by (simp add: uv_inv_clear) (simp add: clear_def)
next
  case (Reserve n)
  with inv show ?thesis by (simp add: reserve_def)
qed

lemma run_inv:
  assumes ok: "T_ok eq h"
  shows "uv_inv eq h s \<Longrightarrow> length (vector_m s) + sum_list (map offered ops) < 2 ^ 64
     \<Longrightarrow> \<exists>s'. run eq h moved s ops = Inr s' \<and> uv_inv eq h s'"
proof (induction ops arbitrary: s)
  case Nil
  then show ?case by simp
next
  case (Cons op ops)
  from Cons.prems(2) have "length (vector_m s) + offered op < 2 ^ 64" by simp
  from apply_operation_inv [OF ok Cons.prems(1) this, of moved]
  obtain s1 where s1: "apply_operation eq h moved s op = Inr s1" "uv_inv eq h s1"
    "length (vector_m s1) \<le> length (vector_m s) + offered op" by blast
  with Cons.prems(2) have "length (vector_m s1) + sum_list (map offered ops) < 2 ^ 64" by simp
  from Cons.IH [OF s1(2) this] s1(1) show ?case by simp
qed

text \<open>
  C3. For a type \<open>T\<close> with consistent equality and hash, the invariant holds of a newly
  constructed collection, and in every state where it holds: distinct positions hold
  unequal values, the index has exactly as many references as the sequence has elements,
  and every reference is a committed one with an index below the length and the hash of
  the element it denotes; \<open>clear\<close> and \<open>reserve\<close> keep the invariant; \<open>push_back\<close>
  returns and keeps it; \<open>Append\<close> returns and keeps it; and every sequence of
  operations runs to its end without a failure and ends in a state with the invariant.
  For the growing operations this is under the proviso that the length of the grown
  vector is still a \<open>size_t\<close>.
\<close>

theorem uv_invariant:
  assumes ok: "T_ok eq h"
  shows
    "uv_inv eq h UniqueVector_new \<and>
     (uv_inv eq h s \<longrightarrow>
        stated_invariant eq h s \<and>
        uv_inv eq h (clear s) \<and>
        uv_inv eq h (reserve s n) \<and>
        (\<exists>b s'. push_back eq h s t = Inr (b, s') \<and>
           (length (vector_m s') < 2 ^ 64 \<longrightarrow> uv_inv eq h s')) \<and>
        (length (vector_m s) + length xs < 2 ^ 64 \<longrightarrow>
           (\<exists>s'. Append eq h s xs = Inr s' \<and> uv_inv eq h s')) \<and>
        (length (vector_m s) + sum_list (map offered ops) < 2 ^ 64 \<longrightarrow>
           (\<exists>s'. run eq h moved s ops = Inr s' \<and> uv_inv eq h s')))"
proof -
  have new: "uv_inv eq h UniqueVector_new" by (rule uv_inv_new)
  have step: "uv_inv eq h s \<longrightarrow>
        stated_invariant eq h s \<and>
        uv_inv eq h (clear s) \<and>
        uv_inv eq h (reserve s n) \<and>
        (\<exists>b s'. push_back eq h s t = Inr (b, s') \<and>
           (length (vector_m s') < 2 ^ 64 \<longrightarrow> uv_inv eq h s')) \<and>
        (length (vector_m s) + length xs < 2 ^ 64 \<longrightarrow>
           (\<exists>s'. Append eq h s xs = Inr s' \<and> uv_inv eq h s')) \<and>
        (length (vector_m s) + sum_list (map offered ops) < 2 ^ 64 \<longrightarrow>
           (\<exists>s'. run eq h moved s ops = Inr s' \<and> uv_inv eq h s'))"
  proof
    assume inv: "uv_inv eq h s"
    have 1: "stated_invariant eq h s" by (rule uv_inv_stated [OF inv])
    have 2: "uv_inv eq h (clear s)" by (rule uv_inv_clear)
    have 3: "uv_inv eq h (reserve s n)" using inv by (simp add: reserve_def)
    have 4: "\<exists>b s'. push_back eq h s t = Inr (b, s') \<and>
           (length (vector_m s') < 2 ^ 64 \<longrightarrow> uv_inv eq h s')"
      by (rule uv_inv_push_back [OF ok inv])
    have 5: "length (vector_m s) + length xs < 2 ^ 64 \<longrightarrow>
           (\<exists>s'. Append eq h s xs = Inr s' \<and> uv_inv eq h s')"
      using Append_inv [OF ok inv] by blast
    have 6: "length (vector_m s) + sum_list (map offered ops) < 2 ^ 64 \<longrightarrow>
           (\<exists>s'. run eq h moved s ops = Inr s' \<and> uv_inv eq h s')"
      using run_inv [OF ok inv] by blast
    from 1 2 3 4 5 6
    show "stated_invariant eq h s \<and>
        uv_inv eq h (clear s) \<and>
        uv_inv eq h (reserve s n) \<and>
        (\<exists>b s'. push_back eq h s t = Inr (b, s') \<and>
           (length (vector_m s') < 2 ^ 64 \<longrightarrow> uv_inv eq h s')) \<and>
        (length (vector_m s) + length xs < 2 ^ 64 \<longrightarrow>
           (\<exists>s'. Append eq h s xs = Inr s' \<and> uv_inv eq h s')) \<and>
        (length (vector_m s) + sum_list (map offered ops) < 2 ^ 64 \<longrightarrow>
           (\<exists>s'. run eq h moved s ops = Inr s' \<and> uv_inv eq h s'))"
      by (intro conjI)
  qed
  from new step show ?thesis ..
qed

theorem uv_invariant_witness:
  "T_ok (=) length_hash \<and> uv_inv (=) length_hash example_xy \<and>
   stated_invariant (=) length_hash example_xy \<and>
   (\<exists>s'. Append (=) length_hash example_xy [''x'', ''z'', ''z''] = Inr s' \<and>
      uv_inv (=) length_hash s') \<and>
   (\<exists>b s'. push_back (=) length_hash example_xy ''q'' = Inr (b, s') \<and>
      length (vector_m s') < 2 ^ 64 \<and> uv_inv (=) length_hash s') \<and>
   (\<exists>s'. run (=) length_hash (\<lambda>_. []) example_xy
            [Push_back ''x'', Clear, Push_back_move ''y'', Reserve 8, Append_range [''y'', ''z'']]
          = Inr s' \<and> uv_inv (=) length_hash s')"
proof -
  let ?ops = "[Push_back ''x'', Clear, Push_back_move ''y'', Reserve 8,
               Append_range [''y'', ''z'']]"
  have room: "length (vector_m example_xy) + length [''x'', ''z'', ''z''] < 2 ^ 64"
    by (simp add: example_xy_def)
  have room': "length (vector_m example_xy) + sum_list (map offered ?ops) < 2 ^ 64"
    by (simp add: example_xy_def)
  note inst = uv_invariant [OF T_ok_length_hash, where s = example_xy and t = "''q''"
      and xs = "[''x'', ''z'', ''z'']" and ops = ?ops and moved = "\<lambda>_. []"]
  from inst uv_inv_example_xy have 1: "stated_invariant (=) length_hash example_xy" by blast
  from inst uv_inv_example_xy room
  have 2: "\<exists>s'. Append (=) length_hash example_xy [''x'', ''z'', ''z''] = Inr s' \<and>
      uv_inv (=) length_hash s'" by blast
  from inst uv_inv_example_xy
  obtain b s' where pb: "push_back (=) length_hash example_xy ''q'' = Inr (b, s')"
    and imp: "length (vector_m s') < 2 ^ 64 \<longrightarrow> uv_inv (=) length_hash s'" by blast
  from pb have "length (vector_m s') \<le> 3"
    by (auto simp: push_back_def Let_def example_xy_def split: sum.splits option.splits)
  then have "length (vector_m s') < 2 ^ 64" by simp
  with pb imp have 3: "\<exists>b s'. push_back (=) length_hash example_xy ''q'' = Inr (b, s') \<and>
      length (vector_m s') < 2 ^ 64 \<and> uv_inv (=) length_hash s'" by blast
  from inst uv_inv_example_xy room'
  have 4: "\<exists>s'. run (=) length_hash (\<lambda>_. []) example_xy ?ops = Inr s' \<and>
      uv_inv (=) length_hash s'" by blast
  from T_ok_length_hash uv_inv_example_xy 1 2 3 4 show ?thesis by blast
qed

subsection \<open>\<open>IndexOf\<close>\<close>

lemma IndexOf_present:
  assumes ok: "T_ok eq h" and inv: "uv_inv eq h s"
    and i: "i < length (vector_m s)" "eq (vector_m s ! i) t"
  shows "IndexOf eq h s t = Inr (of_nat i)"
proof -
  from inv have "length (vector_m s) \<le> 2 ^ 64" "uv_indexed h s" "uv_distinct eq (vector_m s)"
    by (simp_all add: uv_inv_def)
  from set_find_present [OF ok this i] show ?thesis
    by (simp add: IndexOf_def)
qed

lemma IndexOf_absent:
  assumes ok: "T_ok eq h" and inv: "uv_inv eq h s"
    and no: "\<forall>i<length (vector_m s). \<not> eq (vector_m s ! i) t"
  shows "IndexOf eq h s t = Inr (- 1)"
proof -
  from inv have "length (vector_m s) \<le> 2 ^ 64" "uv_indexed h s"
    by (simp_all add: uv_inv_def)
  from set_find_absent [OF ok this no] show ?thesis
    by (simp add: IndexOf_def)
qed

lemma sentinel_out_of_range:
  "length vec < 2 ^ 64 \<Longrightarrow> \<not> unat (- 1 :: size_t) < length vec"
  by (simp add: unsigned_minus_1_eq_mask mask_eq_exp_minus_1)

lemma IndexOf_after_appends:
  assumes ok: "T_ok eq h" and inv: "uv_inv eq h s"
    and no: "\<forall>i<length (vector_m s). \<not> eq (vector_m s ! i) v"
    and w: "eq v w"
    and room: "Suc (length (vector_m s)) + length xs < 2 ^ 64"
  shows "\<exists>s1 s2. push_back eq h s v = Inr (True, s1) \<and> Append eq h s1 xs = Inr s2 \<and>
           IndexOf eq h s2 w = Inr (size_uv s)"
proof -
  from push_back_total [OF ok inv, of v] no
  obtain s1 where pb: "push_back eq h s v = Inr (True, s1)"
    and v1: "vector_m s1 = vector_m s @ [v]"
    and ix: "uv_indexed h s1" and d: "uv_distinct eq (vector_m s1)"
    by auto
  from v1 room have room1: "length (vector_m s1) + length xs < 2 ^ 64" by simp
  then have "length (vector_m s1) < 2 ^ 64" by simp
  with ix d have inv1: "uv_inv eq h s1" by (simp add: uv_inv_def)
  from Append_inv [OF ok inv1 room1]
  obtain s2 where ap: "Append eq h s1 xs = Inr s2" and inv2: "uv_inv eq h s2" by blast
  from Append_prefix [OF ap] v1 obtain ys where v2: "vector_m s2 = vector_m s @ v # ys"
    by auto
  then have pos: "length (vector_m s) < length (vector_m s2)"
    "eq (vector_m s2 ! length (vector_m s)) w"
    using w by simp_all
  from IndexOf_present [OF ok inv2 pos] have "IndexOf eq h s2 w = Inr (size_uv s)"
    by (simp add: size_uv_def)
  with pb ap show ?thesis by blast
qed

text \<open>
  C2. In a collection satisfying the invariant, for a type \<open>T\<close> with consistent equality
  and hash: when position \<open>i\<close> holds a value equal to \<open>v\<close>, \<open>IndexOf\<close> returns \<open>i\<close>,
  a valid index; when no stored value equals \<open>v\<close> it returns \<open>(size_t)(-1)\<close>, the
  largest \<open>size_t\<close>, which is not below the length, so that indexing with it is out of
  range. And the position returned is the one of the first successful append: when \<open>v\<close>
  is appended successfully at position \<open>size()\<close> and any values are appended afterwards,
  \<open>IndexOf\<close> of any value equal to \<open>v\<close> is that position.
\<close>

theorem IndexOf_contract:
  assumes ok: "T_ok eq h" and inv: "uv_inv eq h s"
  shows
    "(\<forall>i<length (vector_m s). eq (vector_m s ! i) v \<longrightarrow>
        IndexOf eq h s v = Inr (of_nat i) \<and> subscript s (of_nat i) = Inr (vector_m s ! i)) \<and>
     ((\<forall>i<length (vector_m s). \<not> eq (vector_m s ! i) v) \<longrightarrow>
        IndexOf eq h s v = Inr (- 1) \<and> (\<forall>n :: size_t. n \<le> - 1) \<and>
        \<not> unat (- 1 :: size_t) < length (vector_m s) \<and>
        subscript s (- 1) = Inl Undefined_behaviour) \<and>
     ((\<forall>i<length (vector_m s). \<not> eq (vector_m s ! i) v) \<and> eq v w \<and>
      Suc (length (vector_m s)) + length xs < 2 ^ 64 \<longrightarrow>
        (\<exists>s1 s2. push_back eq h s v = Inr (True, s1) \<and> Append eq h s1 xs = Inr s2 \<and>
           IndexOf eq h s2 w = Inr (size_uv s)))"
proof -
  from inv have len: "length (vector_m s) < 2 ^ 64" by (simp add: uv_inv_def)
  have hit: "\<forall>i<length (vector_m s). eq (vector_m s ! i) v \<longrightarrow>
        IndexOf eq h s v = Inr (of_nat i) \<and> subscript s (of_nat i) = Inr (vector_m s ! i)"
  proof (intro allI impI)
    fix i assume i: "i < length (vector_m s)" "eq (vector_m s ! i) v"
    with len have "unat (of_nat i :: size_t) = i" by (simp add: unat_of_nat_size_t)
    with i(1) have "subscript s (of_nat i) = Inr (vector_m s ! i)"
      by (simp add: subscript_def)
    with IndexOf_present [OF ok inv i]
    show "IndexOf eq h s v = Inr (of_nat i) \<and> subscript s (of_nat i) = Inr (vector_m s ! i)"
      by simp
  qed
  have miss: "(\<forall>i<length (vector_m s). \<not> eq (vector_m s ! i) v) \<longrightarrow>
        IndexOf eq h s v = Inr (- 1) \<and> (\<forall>n :: size_t. n \<le> - 1) \<and>
        \<not> unat (- 1 :: size_t) < length (vector_m s) \<and>
        subscript s (- 1) = Inl Undefined_behaviour"
  proof
    assume no: "\<forall>i<length (vector_m s). \<not> eq (vector_m s ! i) v"
    have out: "\<not> unat (- 1 :: size_t) < length (vector_m s)"
      by (rule sentinel_out_of_range [OF len])
    then have "subscript s (- 1) = Inl Undefined_behaviour"
      by (simp add: subscript_def)
    with IndexOf_absent [OF ok inv no] out
    show "IndexOf eq h s v = Inr (- 1) \<and> (\<forall>n :: size_t. n \<le> - 1) \<and>
        \<not> unat (- 1 :: size_t) < length (vector_m s) \<and>
        subscript s (- 1) = Inl Undefined_behaviour"
      by simp
  qed
  have later: "(\<forall>i<length (vector_m s). \<not> eq (vector_m s ! i) v) \<and> eq v w \<and>
      Suc (length (vector_m s)) + length xs < 2 ^ 64 \<longrightarrow>
        (\<exists>s1 s2. push_back eq h s v = Inr (True, s1) \<and> Append eq h s1 xs = Inr s2 \<and>
           IndexOf eq h s2 w = Inr (size_uv s))"
    using IndexOf_after_appends [OF ok inv] by blast
  from hit miss later show ?thesis by blast
qed

theorem IndexOf_contract_witness:
  "T_ok (=) length_hash \<and> uv_inv (=) length_hash example_xy \<and>
   IndexOf (=) length_hash example_xy ''y'' = Inr 1 \<and>
   IndexOf (=) length_hash example_xy ''q'' = Inr (- 1) \<and>
   (\<exists>s1 s2. push_back (=) length_hash example_xy ''q'' = Inr (True, s1) \<and>
      Append (=) length_hash s1 [''x'', ''z'', ''q''] = Inr s2 \<and>
      IndexOf (=) length_hash s2 ''q'' = Inr 2)"
proof -
  note inst = IndexOf_contract [OF T_ok_length_hash uv_inv_example_xy,
      of _ "''q''" "[''x'', ''z'', ''q'']"]
  have y: "1 < length (vector_m example_xy)" "vector_m example_xy ! 1 = ''y''"
    by (simp_all add: example_xy_def)
  from IndexOf_contract [OF T_ok_length_hash uv_inv_example_xy, of "''y''"] y
  have 1: "IndexOf (=) length_hash example_xy ''y'' = Inr (of_nat 1)" by blast
  have q: "\<forall>i<length (vector_m example_xy). vector_m example_xy ! i \<noteq> ''q''"
    by (simp add: example_xy_def less_Suc_eq nth_Cons')
  from inst [of "''q''"] q
  have 2: "IndexOf (=) length_hash example_xy ''q'' = Inr (- 1)" by blast
  have room: "Suc (length (vector_m example_xy)) + length [''x'', ''z'', ''q''] < 2 ^ 64"
    by (simp add: example_xy_def)
  from inst [of "''q''"] q room
  have "\<exists>s1 s2. push_back (=) length_hash example_xy ''q'' = Inr (True, s1) \<and>
      Append (=) length_hash s1 [''x'', ''z'', ''q''] = Inr s2 \<and>
      IndexOf (=) length_hash s2 ''q'' = Inr (size_uv example_xy)" by blast
  then have 3: "\<exists>s1 s2. push_back (=) length_hash example_xy ''q'' = Inr (True, s1) \<and>
      Append (=) length_hash s1 [''x'', ''z'', ''q''] = Inr s2 \<and>
      IndexOf (=) length_hash s2 ''q'' = Inr 2"
    by (simp add: size_uv_def example_xy_def)
  from T_ok_length_hash uv_inv_example_xy 1 2 3 show ?thesis by simp
qed

subsection \<open>The move overload\<close>

text \<open>
  C5. Whatever state \<open>std::move\<close> leaves the argument in, the move overload returns
  what the copy overload returns: the same flag and the same collection (sequence and
  index), or the same failure; only the caller's object differs, and only when the value
  was stored. When the value is stored, the reference committed for it denotes the value
  stored and carries the hash of that value, taken before the move.
\<close>

theorem push_back_move_equiv:
  "push_back_move eq h moved s t =
     (case push_back eq h s t of
        Inl e \<Rightarrow> Inl e
      | Inr (b, s') \<Rightarrow> Inr (b, s', if b then moved t else t)) \<and>
   (T_ok eq h \<and> uv_inv eq h s \<and> (\<forall>i<length (vector_m s). \<not> eq (vector_m s ! i) t) \<longrightarrow>
      (\<exists>s'. push_back_move eq h moved s t = Inr (True, s', moved t) \<and>
         push_back eq h s t = Inr (True, s') \<and>
         last (vector_m s') = t \<and>
         index_m (last (set_m s')) = size_uv s \<and>
         ref_value (vector_m s') (last (set_m s')) = Inr t \<and>
         hash_val_m (last (set_m s')) = h t))"
proof (intro conjI impI)
  show "push_back_move eq h moved s t =
     (case push_back eq h s t of
        Inl e \<Rightarrow> Inl e
      | Inr (b, s') \<Rightarrow> Inr (b, s', if b then moved t else t))"
    by (rule push_back_move_eq)
next
  assume a: "T_ok eq h \<and> uv_inv eq h s \<and> (\<forall>i<length (vector_m s). \<not> eq (vector_m s ! i) t)"
  then have ok: "T_ok eq h" and inv: "uv_inv eq h s"
    and no: "\<forall>i<length (vector_m s). \<not> eq (vector_m s ! i) t" by simp_all
  let ?s' = "s\<lparr>vector_m := vector_m s @ [t],
                set_m := map (committed h (vector_m s @ [t])) [0..<length (vector_m s @ [t])]\<rparr>"
  from inv have len: "length (vector_m s) < 2 ^ 64" by (simp add: uv_inv_def)
  have pb: "push_back eq h s t = Inr (True, ?s')"
    by (rule push_back_absent [OF ok inv no])
  then have mv: "push_back_move eq h moved s t = Inr (True, ?s', moved t)"
    by (simp add: push_back_move_eq)
  have lst: "last (set_m ?s') = committed h (vector_m s @ [t]) (length (vector_m s))"
    by simp
  have val: "ref_value (vector_m ?s') (last (set_m ?s')) = Inr t"
    unfolding lst using len by (simp add: ref_value_committed)
  have "index_m (last (set_m ?s')) = size_uv s" "hash_val_m (last (set_m ?s')) = h t"
    unfolding lst by (simp_all add: size_uv_def)
  with pb mv val show "\<exists>s'. push_back_move eq h moved s t = Inr (True, s', moved t) \<and>
         push_back eq h s t = Inr (True, s') \<and>
         last (vector_m s') = t \<and>
         index_m (last (set_m s')) = size_uv s \<and>
         ref_value (vector_m s') (last (set_m s')) = Inr t \<and>
         hash_val_m (last (set_m s')) = h t"
    by (intro exI [of _ ?s']) simp
qed

theorem push_back_move_equiv_witness:
  "T_ok (=) length_hash \<and> uv_inv (=) length_hash example_xy \<and>
   length_hash ((\<lambda>_. '''') ''zz'') \<noteq> length_hash ''zz'' \<and>
   (\<exists>s'. push_back_move (=) length_hash (\<lambda>_. '''') example_xy ''zz'' = Inr (True, s', '''') \<and>
      push_back (=) length_hash example_xy ''zz'' = Inr (True, s') \<and>
      vector_m s' = [''x'', ''y'', ''zz''] \<and>
      hash_val_m (last (set_m s')) = 2)"
proof -
  have z: "\<forall>i<length (vector_m example_xy). vector_m example_xy ! i \<noteq> ''zz''"
    by (simp add: example_xy_def less_Suc_eq nth_Cons')
  from push_back_move_equiv [of "(=)" length_hash "\<lambda>_. ''''" example_xy "''zz''"]
    T_ok_length_hash uv_inv_example_xy z
  obtain s' where s': "push_back_move (=) length_hash (\<lambda>_. '''') example_xy ''zz'' = Inr (True, s', '''')"
    "push_back (=) length_hash example_xy ''zz'' = Inr (True, s')"
    "hash_val_m (last (set_m s')) = length_hash ''zz''"
    by blast
  from s'(2) have "vector_m s' = [''x'', ''y'', ''zz'']"
    by (auto simp: push_back_def Let_def example_xy_def split: sum.splits option.splits)
  with s' have "\<exists>s'. push_back_move (=) length_hash (\<lambda>_. '''') example_xy ''zz'' = Inr (True, s', '''') \<and>
      push_back (=) length_hash example_xy ''zz'' = Inr (True, s') \<and>
      vector_m s' = [''x'', ''y'', ''zz''] \<and>
      hash_val_m (last (set_m s')) = 2"
    by (intro exI [of _ s']) (simp add: length_hash_def)
  moreover have "length_hash ((\<lambda>_. '''') ''zz'') \<noteq> length_hash ''zz''"
    by (simp add: length_hash_def)
  ultimately show ?thesis using T_ok_length_hash uv_inv_example_xy by blast
qed

section \<open>Properties of \<open>SourceDir\<close>\<close>

lemma is_source_absolute_iff:
  "is_source_absolute d \<longleftrightarrow> (\<exists>rest. value_sd d = CHR ''/'' # CHR ''/'' # rest)"
proof (cases "value_sd d")
  case Nil
  then show ?thesis by (simp add: is_source_absolute_def)
next
  case (Cons a as)
  then show ?thesis by (cases as) (auto simp: is_source_absolute_def)
qed

text \<open>
  C10. For every stored string, \<open>is_system_absolute\<close> is the negation of
  \<open>is_source_absolute\<close>: the null (empty) value is classified system-absolute, and so
  is a non-empty value that does not begin with a separator; no value is classified as
  both and none as neither.
\<close>

theorem is_system_absolute_negation:
  "is_system_absolute d = (\<not> is_source_absolute d) \<and>
   (is_null d \<longrightarrow> is_system_absolute d) \<and>
   (value_sd d \<noteq> [] \<and> hd (value_sd d) \<noteq> CHR ''/'' \<longrightarrow> is_system_absolute d) \<and>
   \<not> (is_source_absolute d \<and> is_system_absolute d) \<and>
   (is_source_absolute d \<or> is_system_absolute d)"
  by (cases "value_sd d") (auto simp: is_system_absolute_def is_null_def is_source_absolute_def)

theorem is_system_absolute_negation_witness:
  "is_null \<lparr>value_sd = []\<rparr> \<and> is_system_absolute \<lparr>value_sd = []\<rparr> \<and>
   \<not> is_source_absolute \<lparr>value_sd = []\<rparr> \<and>
   is_system_absolute \<lparr>value_sd = ''foo''\<rparr> \<and>
   is_source_absolute \<lparr>value_sd = ''//foo/''\<rparr> \<and> \<not> is_system_absolute \<lparr>value_sd = ''//foo/''\<rparr>"
  using is_system_absolute_negation [of "\<lparr>value_sd = []\<rparr>"]
    is_system_absolute_negation [of "\<lparr>value_sd = ''foo''\<rparr>"]
    is_system_absolute_negation [of "\<lparr>value_sd = ''//foo/''\<rparr>"]
  by (simp add: is_null_def is_source_absolute_def)

text \<open>
  C4. The claim makes the empty string neither source-absolute nor system-absolute, and
  the comment on \<open>is_system_absolute\<close> promises true for a path that starts with a
  single slash. The empty string is the null path and starts with no slash, yet the code
  returns true for it: \<open>is_system_absolute\<close> is computed as the negation of
  \<open>is_source_absolute\<close>, with no test for an empty value.
\<close>

theorem is_system_absolute_of_empty:
  "is_null \<lparr>value_sd = []\<rparr> \<and>
   value_sd \<lparr>value_sd = []\<rparr> \<noteq> CHR ''/'' # tl (value_sd \<lparr>value_sd = []\<rparr>) \<and>
   is_source_absolute \<lparr>value_sd = []\<rparr> = False \<and>
   is_system_absolute \<lparr>value_sd = []\<rparr> = True"
  by (simp add: is_null_def is_system_absolute_def is_source_absolute_def)

text \<open>
  On the other values the two tests are as their comments say: two leading separators
  make a value source-absolute and not system-absolute, a non-empty value without them is
  system-absolute, and only the first two characters are looked at.
\<close>

lemma classification_of_nonempty:
  "(is_source_absolute d \<longleftrightarrow> (\<exists>rest. value_sd d = CHR ''/'' # CHR ''/'' # rest)) \<and>
   (is_source_absolute d \<longrightarrow> \<not> is_system_absolute d) \<and>
   (value_sd d \<noteq> [] \<and> \<not> (\<exists>rest. value_sd d = CHR ''/'' # CHR ''/'' # rest)
      \<longrightarrow> is_system_absolute d \<and> \<not> is_source_absolute d) \<and>
   is_source_absolute d = is_source_absolute \<lparr>value_sd = take 2 (value_sd d)\<rparr> \<and>
   is_system_absolute d = is_system_absolute \<lparr>value_sd = take 2 (value_sd d)\<rparr>"
proof -
  have two: "is_source_absolute d = is_source_absolute \<lparr>value_sd = take 2 (value_sd d)\<rparr>"
    by (auto simp: is_source_absolute_def)
  have sys: "is_system_absolute d = is_system_absolute \<lparr>value_sd = take 2 (value_sd d)\<rparr>"
    using two by (simp add: is_system_absolute_def)
  have neg: "is_system_absolute d = (\<not> is_source_absolute d)"
    by (simp add: is_system_absolute_def)
  from two sys neg is_source_absolute_iff [of d] show ?thesis
    by blast
qed

lemma classification_examples:
  "is_source_absolute \<lparr>value_sd = ''//foo/''\<rparr>"
  "is_system_absolute \<lparr>value_sd = ''/usr/foo/''\<rparr>"
  by (simp_all add: is_system_absolute_def is_source_absolute_def)

subsection \<open>Views of the value\<close>

text \<open>
  C7. On a source-absolute value \<open>SourceAbsoluteWithOneSlash\<close> returns the stored string
  without its first character, which is a separator, and the \<open>CHECK\<close> does not fail; on
  any other value the call ends in the failed \<open>CHECK\<close> and returns nothing.
\<close>

theorem SourceAbsoluteWithOneSlash_contract:
  "(is_source_absolute d \<longrightarrow>
      SourceAbsoluteWithOneSlash d = Inr (tl (value_sd d)) \<and>
      value_sd d = CHR ''/'' # tl (value_sd d) \<and>
      (\<forall>e. SourceAbsoluteWithOneSlash d \<noteq> Inl e)) \<and>
   (\<not> is_source_absolute d \<longrightarrow> SourceAbsoluteWithOneSlash d = Inl CHECK_failed)"
proof -
  have yes: "is_source_absolute d \<longrightarrow>
      SourceAbsoluteWithOneSlash d = Inr (tl (value_sd d)) \<and>
      value_sd d = CHR ''/'' # tl (value_sd d) \<and>
      (\<forall>e. SourceAbsoluteWithOneSlash d \<noteq> Inl e)"
  proof
    assume a: "is_source_absolute d"
    then obtain rest where v: "value_sd d = CHR ''/'' # CHR ''/'' # rest"
      using is_source_absolute_iff by blast
    with a show "SourceAbsoluteWithOneSlash d = Inr (tl (value_sd d)) \<and>
        value_sd d = CHR ''/'' # tl (value_sd d) \<and>
        (\<forall>e. SourceAbsoluteWithOneSlash d \<noteq> Inl e)"
      by (simp add: SourceAbsoluteWithOneSlash_def string_view_at_def)
  qed
  have no: "\<not> is_source_absolute d \<longrightarrow> SourceAbsoluteWithOneSlash d = Inl CHECK_failed"
    by (simp add: SourceAbsoluteWithOneSlash_def)
  from yes no show ?thesis by blast
qed

theorem SourceAbsoluteWithOneSlash_contract_witness:
  "is_source_absolute \<lparr>value_sd = ''//foo/''\<rparr> \<and>
   SourceAbsoluteWithOneSlash \<lparr>value_sd = ''//foo/''\<rparr> = Inr ''/foo/'' \<and>
   \<not> is_source_absolute \<lparr>value_sd = ''/usr/''\<rparr> \<and>
   SourceAbsoluteWithOneSlash \<lparr>value_sd = ''/usr/''\<rparr> = Inl CHECK_failed \<and>
   SourceAbsoluteWithOneSlash \<lparr>value_sd = []\<rparr> = Inl CHECK_failed"
proof -
  have 1: "is_source_absolute \<lparr>value_sd = ''//foo/''\<rparr>"
    by (simp add: is_source_absolute_def)
  have 2: "\<not> is_source_absolute \<lparr>value_sd = ''/usr/''\<rparr>"
    by (simp add: is_source_absolute_def)
  have 3: "\<not> is_source_absolute \<lparr>value_sd = []\<rparr>"
    by (simp add: is_source_absolute_def)
  from 1 2 3 SourceAbsoluteWithOneSlash_contract [of "\<lparr>value_sd = ''//foo/''\<rparr>"]
    SourceAbsoluteWithOneSlash_contract [of "\<lparr>value_sd = ''/usr/''\<rparr>"]
    SourceAbsoluteWithOneSlash_contract [of "\<lparr>value_sd = []\<rparr>"]
  show ?thesis by simp
qed

text \<open>
  C8. For a value that follows the separator convention, \<open>SourceWithNoTrailingSlash\<close>
  returns the roots \<open>"/"\<close> and \<open>"//"\<close> unchanged and any other non-empty value without
  its last character, which is a separator; the empty value has no separator to drop and
  is returned as it is. \<open>"//"\<close> gives \<open>"//"\<close> and \<open>"//a/b/"\<close> gives \<open>"//a/b"\<close>.
\<close>

theorem SourceWithNoTrailingSlash_contract:
  assumes conv: "separator_convention (value_sd d)"
  shows
    "(value_sd d = ''/'' \<or> value_sd d = ''//'' \<longrightarrow> SourceWithNoTrailingSlash d = value_sd d) \<and>
     (value_sd d \<noteq> [] \<and> value_sd d \<noteq> ''/'' \<and> value_sd d \<noteq> ''//'' \<longrightarrow>
        SourceWithNoTrailingSlash d @ ''/'' = value_sd d \<and>
        SourceWithNoTrailingSlash d = butlast (value_sd d)) \<and>
     (value_sd d = [] \<longrightarrow> SourceWithNoTrailingSlash d = []) \<and>
     SourceWithNoTrailingSlash \<lparr>value_sd = ''//''\<rparr> = ''//'' \<and>
     SourceWithNoTrailingSlash \<lparr>value_sd = ''//a/b/''\<rparr> = ''//a/b''"
proof -
  have root: "value_sd d = ''/'' \<or> value_sd d = ''//'' \<longrightarrow> SourceWithNoTrailingSlash d = value_sd d"
    by (auto simp: SourceWithNoTrailingSlash_def)
  have other: "value_sd d \<noteq> [] \<and> value_sd d \<noteq> ''/'' \<and> value_sd d \<noteq> ''//'' \<longrightarrow>
        SourceWithNoTrailingSlash d @ ''/'' = value_sd d \<and>
        SourceWithNoTrailingSlash d = butlast (value_sd d)"
  proof
    assume ne: "value_sd d \<noteq> [] \<and> value_sd d \<noteq> ''/'' \<and> value_sd d \<noteq> ''//''"
    with conv have ends: "hd (value_sd d) = CHR ''/''" "last (value_sd d) = CHR ''/''"
      by (simp_all add: separator_convention_def)
    have long: "length (value_sd d) > 2"
    proof (rule ccontr)
      assume "\<not> length (value_sd d) > 2"
      then have "length (value_sd d) \<le> 2" by simp
      with ne ends show False
        by (cases "value_sd d"; cases "tl (value_sd d)"; cases "tl (tl (value_sd d))") auto
    qed
    then have r: "SourceWithNoTrailingSlash d = butlast (value_sd d)"
      by (simp add: SourceWithNoTrailingSlash_def string_view_at_def butlast_conv_take)
    moreover have "butlast (value_sd d) @ [last (value_sd d)] = value_sd d"
      using ne by simp
    ultimately show "SourceWithNoTrailingSlash d @ ''/'' = value_sd d \<and>
          SourceWithNoTrailingSlash d = butlast (value_sd d)"
      using ends by simp
  qed
  have null: "value_sd d = [] \<longrightarrow> SourceWithNoTrailingSlash d = []"
    by (simp add: SourceWithNoTrailingSlash_def)
  have ex1: "SourceWithNoTrailingSlash \<lparr>value_sd = ''//''\<rparr> = ''//''"
    by (simp add: SourceWithNoTrailingSlash_def)
  have ex2: "SourceWithNoTrailingSlash \<lparr>value_sd = ''//a/b/''\<rparr> = ''//a/b''"
    by (simp add: SourceWithNoTrailingSlash_def string_view_at_def)
  from root other null ex1 ex2 show ?thesis by blast
qed

theorem SourceWithNoTrailingSlash_contract_witness:
  "separator_convention ''/usr/foo/'' \<and>
   SourceWithNoTrailingSlash \<lparr>value_sd = ''/usr/foo/''\<rparr> = ''/usr/foo'' \<and>
   separator_convention ''/'' \<and>
   SourceWithNoTrailingSlash \<lparr>value_sd = ''/''\<rparr> = ''/''"
proof -
  have 1: "separator_convention (value_sd \<lparr>value_sd = ''/usr/foo/''\<rparr>)"
    and 2: "separator_convention (value_sd \<lparr>value_sd = ''/''\<rparr>)"
    by (simp_all add: separator_convention_def)
  from SourceWithNoTrailingSlash_contract [OF 1] SourceWithNoTrailingSlash_contract [OF 2] 1 2
  show ?thesis by simp
qed

subsection \<open>Equality, ordering and hash\<close>

lemma string_less_lexord:
  "string_less xs ys \<longleftrightarrow> (xs, ys) \<in> lexord {(c, d). (of_char c :: nat) < of_char d}"
  by (induction xs ys rule: string_less.induct) auto

text \<open>
  C6. Two directories are equal exactly when their strings are, which for this class is
  when they are the same value; \<open>operator!=\<close> is the negation; \<open>operator<\<close> is the
  lexicographic order of the strings by their bytes; the hash is the string hash of the
  value, so equal directories have equal hashes, and equality and hash meet the
  requirements that \<open>UniqueVector\<close> puts on its element type.
\<close>

theorem SourceDir_eq_less_hash:
  fixes a b :: SourceDir
  shows
  "(SourceDir_eq a b \<longleftrightarrow> value_sd a = value_sd b) \<and>
   (SourceDir_eq a b \<longleftrightarrow> a = b) \<and>
   (SourceDir_ne a b \<longleftrightarrow> value_sd a \<noteq> value_sd b) \<and>
   (SourceDir_less a b \<longleftrightarrow>
      (value_sd a, value_sd b) \<in> lexord {(c, d). (of_char c :: nat) < of_char d}) \<and>
   SourceDir_hash string_hash a = string_hash (value_sd a) \<and>
   (SourceDir_eq a b \<longrightarrow> SourceDir_hash string_hash a = SourceDir_hash string_hash b) \<and>
   T_ok SourceDir_eq (SourceDir_hash string_hash)"
  by (cases a, cases b)
    (simp add: SourceDir_eq_def SourceDir_ne_def SourceDir_less_def SourceDir_hash_def
      string_less_lexord T_ok_def)

theorem SourceDir_eq_less_hash_witness:
  "SourceDir_eq \<lparr>value_sd = ''//a/''\<rparr> \<lparr>value_sd = ''//a/''\<rparr> \<and>
   SourceDir_hash length_hash \<lparr>value_sd = ''//a/''\<rparr> = 4 \<and>
   \<not> SourceDir_eq \<lparr>value_sd = ''//a/''\<rparr> \<lparr>value_sd = ''//b/''\<rparr> \<and>
   SourceDir_ne \<lparr>value_sd = ''//a/''\<rparr> \<lparr>value_sd = ''//b/''\<rparr> \<and>
   SourceDir_less \<lparr>value_sd = ''//a/''\<rparr> \<lparr>value_sd = ''//b/''\<rparr> \<and>
   \<not> SourceDir_less \<lparr>value_sd = ''//b/''\<rparr> \<lparr>value_sd = ''//a/''\<rparr> \<and>
   SourceDir_less \<lparr>value_sd = ''//a/''\<rparr> \<lparr>value_sd = ''//a/b/''\<rparr>"
  using SourceDir_eq_less_hash [of "\<lparr>value_sd = ''//a/''\<rparr>" "\<lparr>value_sd = ''//a/''\<rparr>" length_hash]
    SourceDir_eq_less_hash [of "\<lparr>value_sd = ''//a/''\<rparr>" "\<lparr>value_sd = ''//b/''\<rparr>" length_hash]
    SourceDir_eq_less_hash [of "\<lparr>value_sd = ''//b/''\<rparr>" "\<lparr>value_sd = ''//a/''\<rparr>" length_hash]
    SourceDir_eq_less_hash [of "\<lparr>value_sd = ''//a/''\<rparr>" "\<lparr>value_sd = ''//a/b/''\<rparr>" length_hash]
  by (simp add: length_hash_def)

subsection \<open>Resolution of relative paths\<close>

text \<open>The model gives the results that the specification lists for resolution.\<close>

lemma resolve_relative_examples:
  "resolve_relative \<lparr>value_sd = ''//src/''\<rparr> True ''a/b'' [] = Inr ''//src/a/b''"
  "resolve_relative \<lparr>value_sd = ''//src/sub/''\<rparr> False ''..'' [] = Inr ''//src/''"
  "resolve_relative \<lparr>value_sd = ''//''\<rparr> False ''..'' [] = Inl PathEscapesRoot"
  by (simp_all add: resolve_relative_def starts_with_two_separators_def
      starts_with_separator_def join_path_def)

text \<open>
  C9. With an empty input string, whatever the directory, the \<open>as_file\<close> flag, the
  source root and the state of the error object, resolution fails with \<open>EmptyInput\<close>:
  the call returns the empty string and sets the error, blaming the value passed for
  that. This holds for both overloads.
\<close>

theorem ResolveRelativeAs_empty_input:
  "resolve_relative base as_file [] source_root = Inl EmptyInput \<and>
   ResolveRelativeAs base as_file blame [] err source_root
     = ([], Some \<lparr>err_kind = EmptyInput, err_blame = blame\<rparr>) \<and>
   ResolveRelativeAs_value string_value base as_file blame err source_root (Some [])
     = ([], Some \<lparr>err_kind = EmptyInput, err_blame = blame\<rparr>) \<and>
   (string_value blame = [] \<longrightarrow>
      ResolveRelativeAs_value string_value base as_file blame err source_root None
        = ([], Some \<lparr>err_kind = EmptyInput, err_blame = blame\<rparr>))"
  by (simp add: ResolveRelativeAs_value_def ResolveRelativeAs_def resolve_relative_def)

theorem ResolveRelativeAs_empty_input_witness:
  "ResolveRelativeAs_value (\<lambda>v :: string. v) \<lparr>value_sd = ''//src/''\<rparr> True [] None [] None
     = ([], Some \<lparr>err_kind = EmptyInput, err_blame = []\<rparr>) \<and>
   ResolveRelativeAs \<lparr>value_sd = ''//src/''\<rparr> False (0 :: nat) []
       (Some \<lparr>err_kind = PathEscapesRoot, err_blame = 1\<rparr>) ''/root''
     = ([], Some \<lparr>err_kind = EmptyInput, err_blame = 0\<rparr>)"
  using ResolveRelativeAs_empty_input [where base = "\<lparr>value_sd = ''//src/''\<rparr>"
      and as_file = True and source_root = "[]" and blame = "[] :: string" and err = None
      and string_value = "\<lambda>v :: string. v"]
    ResolveRelativeAs_empty_input [where base = "\<lparr>value_sd = ''//src/''\<rparr>"
      and as_file = False and source_root = "''/root''" and blame = "0 :: nat"
      and err = "Some \<lparr>err_kind = PathEscapesRoot, err_blame = 1\<rparr>"]
  by simp

end
